theory Spec2Isabelle
  imports Main "HOL-Library.Word" "HOL-Library.Signed_Division"
begin

section \<open>The phase pipeline of \<open>phaser.go\<close>\<close>

subsection \<open>Values, errors and panics\<close>

text \<open>
  Hooks and the execute function have the Go type
  \<^verbatim>\<open>func(value interface{}) (interface{}, error)\<close>.

  \<^item> An \<open>interface{}\<close> value is \<open>GoNil\<close>, a Go \<open>int\<close> (64 bits, as on the usual
    64-bit targets; arithmetic wraps) or any other dynamic value \<open>Dyn x\<close>.
  \<^item> A Go \<open>error\<close> is an \<open>'e option\<close>: \<open>None\<close> is the nil error.
  \<^item> A call either returns its pair or panics; \<open>Panic\<close> is kept apart from the
    returned error, so that "returns an error" and "panics" are different results.
  \<^item> Hooks are closures and may have effects. Everything a hook can change is the
    state \<open>'s\<close>, which every call receives and hands on. The fields of the phase
    itself are not part of \<open>'s\<close>.
\<close>

datatype panic =
    NilFuncCall \<comment> \<open>calling a nil func value: nil pointer dereference\<close>
  | TypeAssertion \<comment> \<open>a failed \<^verbatim>\<open>value.(int)\<close>\<close>
  | PanicMsg string \<comment> \<open>an explicit \<^verbatim>\<open>panic(msg)\<close>\<close>

datatype 'a iface = GoNil | GoInt "64 word" | Dyn 'a

datatype ('a, 'e) outcome = Panic panic | Return "'a iface" "'e option"

type_synonym ('a, 'e, 's) PhaseHook = "'a iface \<Rightarrow> 's \<Rightarrow> ('a, 'e) outcome \<times> 's"

text \<open>
  The struct \<open>Phase\<close>. The field \<open>execute\<close> is compared with nil by \<open>run\<close>, so it is
  an option. The elements of the two slices are never compared with nil; a nil element
  is the hook that panics with \<open>NilFuncCall\<close> when it is called.
\<close>

record ('a, 'e, 's) Phase =
  Name :: string
  preHooks :: "('a, 'e, 's) PhaseHook list"
  execute :: "('a, 'e, 's) PhaseHook option"
  postHooks :: "('a, 'e, 's) PhaseHook list"

text \<open>A call \<^verbatim>\<open>f(value)\<close> of a func-typed field: calling nil panics.\<close>

definition callFunc ::
  "('a, 'e, 's) PhaseHook option \<Rightarrow> 'a iface \<Rightarrow> 's \<Rightarrow> ('a, 'e) outcome \<times> 's" where
  "callFunc f value s = (case f of None \<Rightarrow> (Panic NilFuncCall, s) | Some g \<Rightarrow> g value s)"

subsection \<open>\<open>handleError\<close>, \<open>processHooks\<close> and \<open>run\<close>\<close>

text \<open>
  \<^verbatim>\<open>func (p *Phase) handleError(err error) (interface{}, error) { return nil, err }\<close>

  Go binds \<open>p.handleError\<close> inside the methods of \<open>*Phase\<close> statically, so this is the
  handler that \<open>processHooks\<close> and \<open>run\<close> call.
\<close>

definition handleError :: "('a, 'e, 's) Phase \<Rightarrow> 'e option \<Rightarrow> ('a, 'e) outcome" where
  "handleError p err = Return GoNil err"

text \<open>
  \<^verbatim>\<open>for _, hook := range *hooks {
    if value, err = hook(value); err != nil { return p.handleError(err) }
  }
  return value, nil\<close>
\<close>

fun processHooks ::
  "('a, 'e, 's) Phase \<Rightarrow> 'a iface \<Rightarrow> ('a, 'e, 's) PhaseHook list \<Rightarrow> 's \<Rightarrow> ('a, 'e) outcome \<times> 's"
  where
  "processHooks p value [] s = (Return value None, s)"
| "processHooks p value (hook # hooks) s =
     (case hook value s of
        (Panic f, s') \<Rightarrow> (Panic f, s')
      | (Return value' (Some err), s') \<Rightarrow> (handleError p (Some err), s')
      | (Return value' None, s') \<Rightarrow> processHooks p value' hooks s')"

text \<open>
  \<open>run\<close>: pre-hooks, the nil check of \<open>execute\<close> with its
  \<^verbatim>\<open>panic(fmt.Sprintf("phase %s not implemented", p.Name))\<close>, \<open>execute\<close>, post-hooks.
\<close>

definition run ::
  "('a, 'e, 's) Phase \<Rightarrow> 'a iface \<Rightarrow> 's \<Rightarrow> ('a, 'e) outcome \<times> 's" where
  "run p value s =
     (case processHooks p value (preHooks p) s of
        (Panic f, s1) \<Rightarrow> (Panic f, s1)
      | (Return value1 (Some err), s1) \<Rightarrow> (Return value1 (Some err), s1)
      | (Return value1 None, s1) \<Rightarrow>
          if execute p = None
          then (Panic (PanicMsg (''phase '' @ Name p @ '' not implemented'')), s1)
          else
            (case callFunc (execute p) value1 s1 of
               (Panic f, s2) \<Rightarrow> (Panic f, s2)
             | (Return value2 (Some err), s2) \<Rightarrow> (handleError p (Some err), s2)
             | (Return value2 None, s2) \<Rightarrow>
                 (case processHooks p value2 (postHooks p) s2 of
                    (Panic f, s3) \<Rightarrow> (Panic f, s3)
                  | (Return value3 (Some err), s3) \<Rightarrow> (Return value3 (Some err), s3)
                  | (Return value3 None, s3) \<Rightarrow> (Return value3 None, s3))))"

subsection \<open>Attaching hooks\<close>

text \<open>
  \<^verbatim>\<open>*hooks = append([]PhaseHook{newHook}, *hooks...)\<close> and
  \<^verbatim>\<open>*hooks = append(*hooks, newHook)\<close>: the slice behind the pointer is replaced; the
  model returns the new slice. The four methods of the phase write it to their field.
\<close>

definition prependHook ::
  "('a, 'e, 's) Phase \<Rightarrow> ('a, 'e, 's) PhaseHook list \<Rightarrow> ('a, 'e, 's) PhaseHook
     \<Rightarrow> ('a, 'e, 's) PhaseHook list" where
  "prependHook p hooks newHook = [newHook] @ hooks"

definition appendHook ::
  "('a, 'e, 's) Phase \<Rightarrow> ('a, 'e, 's) PhaseHook list \<Rightarrow> ('a, 'e, 's) PhaseHook
     \<Rightarrow> ('a, 'e, 's) PhaseHook list" where
  "appendHook p hooks newHook = hooks @ [newHook]"





text \<open>
  A sequence of attachment calls on one chain, in call order, and the chain it
  leaves.
\<close>

datatype 'h chainOp = Prepend 'h | Append 'h

fun applyOp ::
  "('a, 'e, 's) Phase \<Rightarrow> ('a, 'e, 's) PhaseHook list \<Rightarrow> ('a, 'e, 's) PhaseHook chainOp
     \<Rightarrow> ('a, 'e, 's) PhaseHook list" where
  "applyOp p hooks (Prepend h) = prependHook p hooks h"
| "applyOp p hooks (Append h) = appendHook p hooks h"

definition applyOps ::
  "('a, 'e, 's) Phase \<Rightarrow> ('a, 'e, 's) PhaseHook list \<Rightarrow> ('a, 'e, 's) PhaseHook chainOp list
     \<Rightarrow> ('a, 'e, 's) PhaseHook list" where
  "applyOps p hooks ops = foldl (applyOp p) hooks ops"

fun prepended :: "'h chainOp list \<Rightarrow> 'h list" where
  "prepended [] = []"
| "prepended (Prepend h # ops) = h # prepended ops"
| "prepended (Append h # ops) = prepended ops"

fun appended :: "'h chainOp list \<Rightarrow> 'h list" where
  "appended [] = []"
| "appended (Prepend h # ops) = appended ops"
| "appended (Append h # ops) = h # appended ops"

subsection \<open>Observing which hooks are called\<close>

text \<open>
  To state which hooks a call of \<open>processHooks\<close> or \<open>run\<close> invokes, each hook is
  wrapped so that it records its own call: \<open>traced t h\<close> behaves as \<open>h\<close> and adds one
  entry with the tag \<open>t\<close>, the value \<open>h\<close> received and what \<open>h\<close> did to a log carried
  beside the state. The code under study is not changed: it is run on wrapped hooks.
\<close>

datatype stage = PreHook nat | Execute | PostHook nat

datatype ('a, 'e) call =
  Call (callStage: stage) (callInput: "'a iface") (callResult: "('a, 'e) outcome")

definition traced ::
  "stage \<Rightarrow> ('a, 'e, 's) PhaseHook \<Rightarrow> ('a, 'e, 's \<times> ('a, 'e) call list) PhaseHook" where
  "traced t h = (\<lambda>value (s, log).
     case h value s of (r, s') \<Rightarrow> (r, (s', log @ [Call t value r])))"

text \<open>The hooks of a list, each tagged with its position (counted from \<open>n\<close>).\<close>

fun tracedHooks ::
  "(nat \<Rightarrow> stage) \<Rightarrow> nat \<Rightarrow> ('a, 'e, 's) PhaseHook list
     \<Rightarrow> ('a, 'e, 's \<times> ('a, 'e) call list) PhaseHook list" where
  "tracedHooks tag n [] = []"
| "tracedHooks tag n (h # hs) = traced (tag n) h # tracedHooks tag (Suc n) hs"

definition tracedPhase ::
  "('a, 'e, 's) Phase \<Rightarrow> ('a, 'e, 's \<times> ('a, 'e) call list) Phase" where
  "tracedPhase p =
     \<lparr>Name = Name p,
      preHooks = tracedHooks PreHook 0 (preHooks p),
      execute = map_option (traced Execute) (execute p),
      postHooks = tracedHooks PostHook 0 (postHooks p)\<rparr>"

text \<open>
  The entries that applying a chain adds to the log, computed from the unwrapped
  hooks (used in the proofs only).
\<close>

fun hookCalls ::
  "(nat \<Rightarrow> stage) \<Rightarrow> nat \<Rightarrow> 'a iface \<Rightarrow> ('a, 'e, 's) PhaseHook list \<Rightarrow> 's
     \<Rightarrow> ('a, 'e) call list" where
  "hookCalls tag n value [] s = []"
| "hookCalls tag n value (hook # hooks) s =
     (case hook value s of
        (Return value' None, s') \<Rightarrow>
          Call (tag n) value (Return value' None) # hookCalls tag (Suc n) value' hooks s'
      | (r, s') \<Rightarrow> [Call (tag n) value r])"

subsection \<open>The hooks and phases of \<open>phase_test.go\<close>\<close>

text \<open>
  \<open>assert.AnError\<close>, the type assertion \<^verbatim>\<open>value.(int)\<close> (which panics on anything that
  is not an int) and Go's integer division, which truncates towards zero.
\<close>

definition AnError :: string where
  "AnError = ''assert.AnError general error for testing''"

definition goDiv :: "64 word \<Rightarrow> 64 word \<Rightarrow> 64 word" where
  "goDiv a b = word_of_int (sint a sdiv sint b)"

text \<open>
  \<^verbatim>\<open>func(value interface{}) (interface{}, error) { return value.(int) + n, err }\<close>
  of \<open>TestProcessHooksPass\<close> (\<open>err\<close> nil) and \<open>TestProcessHooksFail\<close>.
\<close>

definition addHook :: "64 word \<Rightarrow> string option \<Rightarrow> ('a, string, 's) PhaseHook" where
  "addHook n err value s =
     (case value of GoInt i \<Rightarrow> (Return (GoInt (i + n)) err, s) | _ \<Rightarrow> (Panic TypeAssertion, s))"

text \<open>
  The hooks of \<open>TestTestPhaseRun\<close>: multiply by two, divide by two, and
  \<^verbatim>\<open>if value.(int) != expected { err = assert.AnError }; return value, err\<close>.
\<close>

definition doubleHook :: "('a, string, 's) PhaseHook" where
  "doubleHook value s =
     (case value of GoInt i \<Rightarrow> (Return (GoInt (i * 2)) None, s) | _ \<Rightarrow> (Panic TypeAssertion, s))"

definition halveHook :: "('a, string, 's) PhaseHook" where
  "halveHook value s =
     (case value of GoInt i \<Rightarrow> (Return (GoInt (goDiv i 2)) None, s)
      | _ \<Rightarrow> (Panic TypeAssertion, s))"

definition checkHook :: "64 word \<Rightarrow> ('a, string, 's) PhaseHook" where
  "checkHook expected value s =
     (case value of
        GoInt i \<Rightarrow> (Return value (if i \<noteq> expected then Some AnError else None), s)
      | _ \<Rightarrow> (Panic TypeAssertion, s))"

text \<open>The phase that \<open>TestTestPhaseRun\<close> builds around its variable \<open>val\<close>.\<close>

definition testPhase :: "64 word \<Rightarrow> ('a, string, 's) Phase" where
  "testPhase val =
     \<lparr>Name = [],
      preHooks = [doubleHook, checkHook (val * 2)],
      execute = Some (checkHook (val * 2)),
      postHooks = [checkHook (val * 2), halveHook, checkHook val]\<rparr>"

text \<open>
  \<open>Phase{}\<close> of \<open>TestDefaultRunPanics\<close>, and the phase of \<open>TestProcessHooksFail\<close>,
  whose second pre-hook returns \<open>AnError\<close> and whose \<open>execute\<close> is nil.
\<close>

definition zeroPhase :: "('a, 'e, 's) Phase" where
  "zeroPhase = \<lparr>Name = [], preHooks = [], execute = None, postHooks = []\<rparr>"

definition failPhase :: "('a, string, 's) Phase" where
  "failPhase =
     zeroPhase\<lparr>preHooks := [addHook 1 None, addHook 2 (Some AnError), addHook 3 None]\<rparr>"

section \<open>Properties\<close>

subsection \<open>Helper lemmas\<close>

text \<open>
  A chain returns the nil error exactly when each of its hooks, called in order on the
  value handed on by the one before, returns the nil error.
\<close>

lemma processHooks_ok_Cons:
  "processHooks p v (h # hs) s = (Return w None, s') \<longleftrightarrow>
     (\<exists>v1 s1. h v s = (Return v1 None, s1) \<and> processHooks p v1 hs s1 = (Return w None, s'))"
  by (auto split: prod.splits outcome.splits option.splits simp: handleError_def)

lemma processHooks_append:
  "processHooks p v (pre @ rest) s =
     (case processHooks p v pre s of
        (Return v1 None, s1) \<Rightarrow> processHooks p v1 rest s1
      | other \<Rightarrow> other)"
  by (induction pre arbitrary: v s)
     (auto split: prod.splits outcome.splits option.splits simp: handleError_def)

lemma processHooks_traced:
  "processHooks q v (tracedHooks tag n hs) (s, log) =
     (fst (processHooks p v hs s),
      (snd (processHooks p v hs s), log @ hookCalls tag n v hs s))"
  by (induction hs arbitrary: n v s log)
     (auto split: prod.splits outcome.splits option.splits simp: handleError_def traced_def)


lemma hookCalls_stage_nth:
  "i < length (hookCalls tag n v hs s) \<Longrightarrow> callStage (hookCalls tag n v hs s ! i) = tag (n + i)"
proof (induction hs arbitrary: n v s i)
  case Nil
  then show ?case by simp
next
  case (Cons h hs)
  then show ?case
    by (cases i) (auto split: prod.splits outcome.splits option.splits)
qed

lemma hookCalls_stages:
  "map callStage (hookCalls tag n v hs s) =
     map tag [n..<n + length (hookCalls tag n v hs s)]"
  by (rule nth_equalityI) (simp_all add: hookCalls_stage_nth)

lemma hookCalls_append:
  "hookCalls tag n v (pre @ rest) s =
     hookCalls tag n v pre s @
     (case processHooks p v pre s of
        (Return v1 None, s1) \<Rightarrow> hookCalls tag (n + length pre) v1 rest s1
      | other \<Rightarrow> [])"
  by (induction pre arbitrary: n v s)
     (auto split: prod.splits outcome.splits option.splits simp: handleError_def)

lemma hookCalls_length_ok:
  "processHooks p v hs s = (Return w None, s') \<Longrightarrow> length (hookCalls tag n v hs s) = length hs"
  by (induction hs arbitrary: n v s)
     (auto split: prod.splits outcome.splits option.splits simp: handleError_def)




lemma foldl_prependHook: "foldl (prependHook p) hooks hs = rev hs @ hooks"
  by (induction hs arbitrary: hooks) (simp_all add: prependHook_def)

lemma applyOps_from:
  "applyOps p hooks ops = rev (prepended ops) @ hooks @ appended ops"
  unfolding applyOps_def
proof (induction ops arbitrary: hooks)
  case Nil
  show ?case by simp
next
  case (Cons op ops)
  show ?case
    by (cases op) (simp_all add: Cons.IH prependHook_def appendHook_def)
qed

lemma tracedPhase_fields:
  "Name (tracedPhase p) = Name p"
  "preHooks (tracedPhase p) = tracedHooks PreHook 0 (preHooks p)"
  "execute (tracedPhase p) = map_option (traced Execute) (execute p)"
  "postHooks (tracedPhase p) = tracedHooks PostHook 0 (postHooks p)"
  by (simp_all add: tracedPhase_def)

lemma processHooks_any_phase: "processHooks q v hs s = processHooks p v hs s"
  by (induction hs arbitrary: v s)
     (auto split: prod.splits outcome.splits option.splits simp: handleError_def)

lemma sdiv_two_int: "(2 * x) sdiv 2 = (x :: int)"
proof -
  have "sgn x * \<bar>x\<bar> = x" by (simp add: abs_if sgn_if)
  then show ?thesis
    by (simp add: signed_divide_int_def abs_mult sgn_mult)
qed

lemma sint_double:
  "sint (val * 2 :: 64 word) = signed_take_bit 63 (2 * sint val)"
  by (simp add: sint_word_ariths mult.commute)

lemma goDiv_double_in_range:
  assumes "- (2 ^ 62) \<le> sint val" and "sint val < 2 ^ 62"
  shows "goDiv (val * 2) 2 = val"
proof -
  have "signed_take_bit 63 (2 * sint val) = 2 * sint val"
    using assms by (intro signed_take_bit_int_eq_self) simp_all
  then show ?thesis
    by (simp add: goDiv_def sint_double sdiv_two_int)
qed

lemma mod_shift_down:
  assumes "m \<le> a" and "a < 2 * m"
  shows "(a :: int) mod m = a - m"
proof -
  have "(a - m) mod m = a - m"
    using assms by (intro mod_pos_pos_trivial) simp_all
  then show ?thesis by simp
qed

lemma mod_shift_up:
  assumes "- m \<le> a" and "a < 0"
  shows "(a :: int) mod m = a + m"
proof -
  have "(a + m) mod m = a + m"
    using assms by (intro mod_pos_pos_trivial) simp_all
  then show ?thesis by simp
qed

lemma signed_take_bit_high:
  assumes "2 ^ 63 \<le> k" and "k < 2 ^ 64"
  shows "signed_take_bit 63 (k :: int) = k - 2 ^ 64"
proof -
  have "(k + 2 ^ 63) mod 2 ^ 64 = k + 2 ^ 63 - 2 ^ 64"
    using assms by (intro mod_shift_down) simp_all
  then show ?thesis
    by (simp add: signed_take_bit_eq_take_bit_shift take_bit_eq_mod)
qed

lemma signed_take_bit_low:
  assumes "- (2 ^ 64) \<le> k" and "k < - (2 ^ 63)"
  shows "signed_take_bit 63 (k :: int) = k + 2 ^ 64"
proof -
  have "(k + 2 ^ 63) mod 2 ^ 64 = k + 2 ^ 63 + 2 ^ 64"
    using assms by (intro mod_shift_up) simp_all
  then show ?thesis
    by (simp add: signed_take_bit_eq_take_bit_shift take_bit_eq_mod)
qed

lemma goDiv_double_high:
  assumes "2 ^ 62 \<le> sint val"
  shows "goDiv (val * 2) 2 = val + 2 ^ 63"
proof -
  have lt: "sint val < 2 ^ 63"
    using sint_lt [of val] by simp
  have "signed_take_bit 63 (2 * sint val) = 2 * sint val - 2 ^ 64"
    using assms lt by (intro signed_take_bit_high) simp_all
  also have "\<dots> = 2 * (sint val - 2 ^ 63)"
    by simp
  finally have "sint (val * 2) sdiv 2 = sint val - 2 ^ 63"
    by (simp only: sint_double sdiv_two_int)
  then show ?thesis
    by (simp add: goDiv_def)
qed

lemma goDiv_double_low:
  assumes "sint val < - (2 ^ 62)"
  shows "goDiv (val * 2) 2 = val + 2 ^ 63"
proof -
  have ge: "- (2 ^ 63) \<le> sint val"
    using sint_ge [of val] by simp
  have "signed_take_bit 63 (2 * sint val) = 2 * sint val + 2 ^ 64"
    using assms ge by (intro signed_take_bit_low) simp_all
  also have "\<dots> = 2 * (sint val + 2 ^ 63)"
    by simp
  finally have "sint (val * 2) sdiv 2 = sint val + 2 ^ 63"
    by (simp only: sint_double sdiv_two_int)
  then show ?thesis
    by (simp add: goDiv_def)
qed

lemma goDiv_double_iff:
  "goDiv (val * 2) 2 = val \<longleftrightarrow> - (2 ^ 62) \<le> sint val \<and> sint val < 2 ^ 62"
proof -
  have "val + 2 ^ 63 \<noteq> val"
    by simp
  then show ?thesis
    using goDiv_double_in_range [of val] goDiv_double_high [of val] goDiv_double_low [of val]
    by (cases "- (2 ^ 62) \<le> sint val"; cases "sint val < 2 ^ 62") auto
qed

lemma run_testPhase:
  "run (testPhase val) (GoInt val) s =
     (if goDiv (val * 2) 2 = val then (Return (GoInt val) None, s)
      else (Return GoNil (Some AnError), s))"
  by (simp add: run_def testPhase_def doubleHook_def checkHook_def halveHook_def callFunc_def
      handleError_def)

subsection \<open>The empty chain and the default handler\<close>

text \<open>
  C7. Applying the empty hook chain to any value \<open>V\<close> returns \<open>V\<close> with the nil error,
  and has no effect on the state.
\<close>

theorem processHooks_empty: "processHooks p V [] s = (Return V None, s)"
  by simp

text \<open>
  C8. For every error \<open>err\<close>, \<open>handleError\<close> returns the nil value together with \<open>err\<close>
  itself. It discards the value in flight: a chain whose hook returns \<open>(w, e)\<close> with a
  non-nil \<open>e\<close> yields \<open>(nil, e)\<close>, whatever \<open>w\<close> is.
\<close>

theorem handleError_pass_through:
  "handleError p err = Return GoNil err \<and>
   processHooks p v [\<lambda>x t. (Return w (Some e), t)] s = (Return GoNil (Some e), s)"
  by (simp add: handleError_def)

subsection \<open>Attaching hooks\<close>

text \<open>
  C4. Let \<open>chain\<close> be the chain left by any sequence \<open>ops\<close> of prepend and append
  calls on the empty chain. Then \<open>prependHook\<close> puts the new hook \<open>h\<close> at index 0 and
  the hooks of \<open>chain\<close> follow it in their old order; prepending \<open>hs\<close> one after the
  other puts them in front in reverse order of the calls; and \<open>chain\<close> itself is the
  prepended hooks in reverse call order followed by the appended hooks in call order.
\<close>

theorem prependHook_front:
  "prependHook p (applyOps p [] ops) h ! 0 = h \<and>
   prependHook p (applyOps p [] ops) h = h # applyOps p [] ops \<and>
   drop 1 (prependHook p (applyOps p [] ops) h) = applyOps p [] ops \<and>
   foldl (prependHook p) (applyOps p [] ops) hs = rev hs @ applyOps p [] ops \<and>
   applyOps p [] ops = rev (prepended ops) @ appended ops"
  by (simp add: foldl_prependHook applyOps_from) (simp add: prependHook_def)


subsection \<open>Short-circuit on the first error\<close>

text \<open>
  C1. Let hook number \<open>k = length pre + 1\<close> of the chain \<open>pre @ hook # rest\<close> be the
  first to return a non-nil error: the hooks before it, applied in order from the input
  \<open>v\<close>, all return the nil error and hand \<open>v1\<close> on, and \<open>hook\<close> returns the error
  \<open>err\<close> on \<open>v1\<close>. Then applying the chain returns what \<open>handleError\<close> returns for
  \<open>err\<close>, which is \<open>(nil, err)\<close>, in the state \<open>hook\<close> left; and when every hook
  records its call, the log holds the calls of hooks \<open>1..k\<close> in order and nothing else,
  so none of the hooks \<open>k+1..n\<close> in \<open>rest\<close> is called.
\<close>

theorem processHooks_first_error:
  assumes pre: "processHooks p v pre s = (Return v1 None, s1)"
    and hook: "hook v1 s1 = (Return v2 (Some err), s2)"
  shows "processHooks p v (pre @ hook # rest) s = (handleError p (Some err), s2) \<and>
         handleError p (Some err) = Return GoNil (Some err) \<and>
         fst (processHooks q v (tracedHooks tag 0 (pre @ hook # rest)) (s, [])) =
           handleError q (Some err) \<and>
         fst (snd (processHooks q v (tracedHooks tag 0 (pre @ hook # rest)) (s, []))) = s2 \<and>
         map callStage (snd (snd (processHooks q v (tracedHooks tag 0 (pre @ hook # rest)) (s, [])))) =
           map tag [0..<Suc (length pre)]"
proof -
  have res: "processHooks p v (pre @ hook # rest) s = (handleError p (Some err), s2)"
    using pre hook by (simp add: processHooks_append)
  have calls: "hookCalls tag 0 v (pre @ hook # rest) s =
      hookCalls tag 0 v pre s @ [Call (tag (length pre)) v1 (Return v2 (Some err))]"
    using pre hook by (simp add: hookCalls_append [where p = p])
  have len: "length (hookCalls tag 0 v pre s) = length pre"
    using pre by (rule hookCalls_length_ok)
  have stages: "map callStage (hookCalls tag 0 v (pre @ hook # rest) s) =
      map tag [0..<Suc (length pre)]"
    using hookCalls_stages [of tag 0 v pre s] by (simp add: calls len)
  show ?thesis
    using res stages
    by (simp add: processHooks_traced [where p = p] handleError_def)
qed

theorem processHooks_first_error_witness:
  "processHooks (failPhase :: (unit, string, unit) Phase) (GoInt 0) [addHook 1 None] () =
     (Return (GoInt 1) None, ()) \<and>
   addHook 2 (Some AnError) (GoInt 1) () = (Return (GoInt 3 :: unit iface) (Some AnError), ()) \<and>
   processHooks (failPhase :: (unit, string, unit) Phase) (GoInt 0) (preHooks failPhase) () =
     (Return GoNil (Some AnError), ()) \<and>
   snd (snd (processHooks (tracedPhase (failPhase :: (unit, string, unit) Phase)) (GoInt 0)
     (tracedHooks PreHook 0 (preHooks failPhase)) ((), []))) =
     [Call (PreHook 0) (GoInt 0) (Return (GoInt 1) None),
      Call (PreHook 1) (GoInt 1) (Return (GoInt 3) (Some AnError))]"
  using processHooks_first_error [where p = "failPhase :: (unit, string, unit) Phase"
      and v = "GoInt 0" and pre = "[addHook 1 None]" and s = "()" and ?v1.0 = "GoInt 1"
      and ?s1.0 = "()" and hook = "addHook 2 (Some AnError)" and ?v2.0 = "GoInt 3"
      and err = AnError and ?s2.0 = "()" and q = "tracedPhase failPhase" and tag = PreHook
      and rest = "[addHook 3 None]"]
  by (simp add: failPhase_def zeroPhase_def addHook_def handleError_def traced_def)

text \<open>
  C2. If the pre-hooks all succeed and hand \<open>v1\<close> to an assigned execute function that
  returns the error \<open>err\<close>, then \<open>run\<close> returns what \<open>handleError\<close> returns for
  \<open>err\<close>, in the state execute left, whatever the post-hooks are; and when every hook
  records its call, the log holds the calls of all pre-hooks and of execute and no call
  of a post-hook.
\<close>

theorem run_execute_error:
  assumes pre: "processHooks p v (preHooks p) s = (Return v1 None, s1)"
    and exec: "execute p = Some exec"
    and err: "exec v1 s1 = (Return v2 (Some err), s2)"
  shows "run p v s = (handleError p (Some err), s2) \<and>
         run (p\<lparr>postHooks := hooks\<rparr>) v s = (handleError p (Some err), s2) \<and>
         fst (run (tracedPhase p) v (s, [])) = Return GoNil (Some err) \<and>
         fst (snd (run (tracedPhase p) v (s, []))) = s2 \<and>
         map callStage (snd (snd (run (tracedPhase p) v (s, [])))) =
           map PreHook [0..<length (preHooks p)] @ [Execute]"
proof -
  have plain: "run p v s = (handleError p (Some err), s2)"
    using pre exec err by (simp add: run_def callFunc_def)
  have "processHooks (p\<lparr>postHooks := hooks\<rparr>) v (preHooks p) s = (Return v1 None, s1)"
    using pre processHooks_any_phase [of "p\<lparr>postHooks := hooks\<rparr>" v "preHooks p" s p] by simp
  then have other: "run (p\<lparr>postHooks := hooks\<rparr>) v s = (handleError p (Some err), s2)"
    using exec err by (simp add: run_def callFunc_def handleError_def)
  have len: "length (hookCalls PreHook 0 v (preHooks p) s) = length (preHooks p)"
    using pre by (rule hookCalls_length_ok)
  have stages: "map callStage (hookCalls PreHook 0 v (preHooks p) s) =
      map PreHook [0..<length (preHooks p)]"
    using hookCalls_stages [of PreHook 0 v "preHooks p" s] by (simp add: len)
  have call: "callFunc (Some (traced Execute exec)) v1 (s1, log) =
      (Return v2 (Some err), (s2, log @ [Call Execute v1 (Return v2 (Some err))]))" for log
    using err by (simp add: callFunc_def traced_def)
  have traced: "run (tracedPhase p) v (s, []) =
      (Return GoNil (Some err),
       (s2, hookCalls PreHook 0 v (preHooks p) s @ [Call Execute v1 (Return v2 (Some err))]))"
    using pre exec
    by (simp add: run_def tracedPhase_fields(2,3) processHooks_traced [where p = p]
        call handleError_def)
  show ?thesis
    using plain other stages by (simp add: traced)
qed

theorem run_execute_error_witness:
  "processHooks
     (zeroPhase\<lparr>preHooks := [addHook 1 None], execute := Some (addHook 2 (Some AnError)),
        postHooks := [addHook 3 None]\<rparr> :: (unit, string, unit) Phase)
     (GoInt 0) [addHook 1 None] () = (Return (GoInt 1) None, ()) \<and>
   addHook 2 (Some AnError) (GoInt 1) () = (Return (GoInt 3 :: unit iface) (Some AnError), ()) \<and>
   run (zeroPhase\<lparr>preHooks := [addHook 1 None], execute := Some (addHook 2 (Some AnError)),
          postHooks := [addHook 3 None]\<rparr> :: (unit, string, unit) Phase) (GoInt 0) () =
     (Return GoNil (Some AnError), ()) \<and>
   map callStage (snd (snd (run (tracedPhase
       (zeroPhase\<lparr>preHooks := [addHook 1 None], execute := Some (addHook 2 (Some AnError)),
          postHooks := [addHook 3 None]\<rparr> :: (unit, string, unit) Phase)) (GoInt 0) ((), [])))) =
     [PreHook 0, Execute]"
  using run_execute_error [where
      p = "zeroPhase\<lparr>preHooks := [addHook 1 None], execute := Some (addHook 2 (Some AnError)),
             postHooks := [addHook 3 None]\<rparr> :: (unit, string, unit) Phase"
      and v = "GoInt 0" and s = "()" and ?v1.0 = "GoInt 1" and ?s1.0 = "()"
      and exec = "addHook 2 (Some AnError)" and ?v2.0 = "GoInt 3" and err = AnError
      and ?s2.0 = "()" and hooks = "[addHook 3 None]"]
  by (simp add: zeroPhase_def addHook_def handleError_def)

text \<open>
  C9. If a pre-hook is the first to return a non-nil error \<open>err\<close>, then \<open>run\<close> returns
  what \<open>handleError\<close> returns for \<open>err\<close> without looking at \<open>execute\<close>: the result
  is the pair \<open>(nil, err)\<close> also when \<open>execute\<close> is nil, and when every hook records
  its call, the log holds the calls of the pre-hooks up to the failing one and no call
  of execute or of a post-hook.
\<close>

theorem run_pre_hook_error:
  assumes chain: "preHooks p = pre @ hook # rest"
    and pre: "processHooks p v pre s = (Return v1 None, s1)"
    and err: "hook v1 s1 = (Return v2 (Some err), s2)"
  shows "run p v s = (handleError p (Some err), s2) \<and>
         run (p\<lparr>execute := None\<rparr>) v s = (Return GoNil (Some err), s2) \<and>
         fst (run (tracedPhase p) v (s, [])) = Return GoNil (Some err) \<and>
         fst (snd (run (tracedPhase p) v (s, []))) = s2 \<and>
         map callStage (snd (snd (run (tracedPhase p) v (s, [])))) =
           map PreHook [0..<Suc (length pre)]"
proof -
  have "processHooks p v (preHooks p) s = (Return GoNil (Some err), s2)"
    using pre err by (simp add: chain processHooks_append handleError_def)
  then have hooks: "processHooks q v (preHooks p) s = (Return GoNil (Some err), s2)" for q
    using processHooks_any_phase [of q v "preHooks p" s p] by simp
  have plain: "run q v s = (Return GoNil (Some err), s2)" if "preHooks q = preHooks p" for q
    using hooks [of q] that by (simp add: run_def)
  have calls: "hookCalls PreHook 0 v (preHooks p) s =
      hookCalls PreHook 0 v pre s @ [Call (PreHook (length pre)) v1 (Return v2 (Some err))]"
    using pre err by (simp add: chain hookCalls_append [where p = p])
  have len: "length (hookCalls PreHook 0 v pre s) = length pre"
    using pre by (rule hookCalls_length_ok)
  have stages: "map callStage (hookCalls PreHook 0 v (preHooks p) s) =
      map PreHook [0..<Suc (length pre)]"
    using hookCalls_stages [of PreHook 0 v pre s] by (simp add: calls len)
  have traced: "run (tracedPhase p) v (s, []) =
      (Return GoNil (Some err), (s2, hookCalls PreHook 0 v (preHooks p) s))"
    using hooks [of p]
    by (simp add: run_def tracedPhase_fields(2) processHooks_traced [where p = p])
  show ?thesis
    using plain [of p] plain [of "p\<lparr>execute := None\<rparr>"] stages
    by (simp add: traced handleError_def)
qed

theorem run_pre_hook_error_witness:
  "preHooks (failPhase :: (unit, string, unit) Phase) =
     [addHook 1 None] @ addHook 2 (Some AnError) # [addHook 3 None] \<and>
   execute (failPhase :: (unit, string, unit) Phase) = None \<and>
   run (failPhase :: (unit, string, unit) Phase) (GoInt 5) () =
     (Return GoNil (Some AnError), ()) \<and>
   map callStage (snd (snd (run (tracedPhase (failPhase :: (unit, string, unit) Phase))
     (GoInt 5) ((), [])))) = [PreHook 0, PreHook 1]"
  using run_pre_hook_error [where p = "failPhase :: (unit, string, unit) Phase"
      and pre = "[addHook 1 None]" and hook = "addHook 2 (Some AnError)"
      and rest = "[addHook 3 None]" and v = "GoInt 5" and s = "()" and ?v1.0 = "GoInt 6"
      and ?s1.0 = "()" and ?v2.0 = "GoInt 8" and err = AnError and ?s2.0 = "()"]
  by (simp add: failPhase_def zeroPhase_def addHook_def handleError_def)

subsection \<open>A phase without an execute function\<close>




subsection \<open>Order of execution\<close>



subsection \<open>The round trip of \<open>TestTestPhaseRun\<close>\<close>

text \<open>
  C6, as the code has it. The phase of the test doubles \<open>val\<close> in its pre-hooks, checks
  the doubled value in execute and halves it in its post-hooks, on Go's 64-bit \<open>int\<close>.
  For \<open>- 2^62 \<le> val < 2^62\<close>, \<open>run\<close> returns \<open>val\<close> with the nil error. For every other
  \<open>val\<close> the doubling wraps around, the last post-hook finds a value other than \<open>val\<close>,
  and \<open>run\<close> returns \<open>(nil, AnError)\<close>. On an input that is not an int, the first
  pre-hook panics.
\<close>

theorem run_round_trip:
  fixes x :: 'a and s :: 's
  shows "run (testPhase val) (GoInt val :: 'a iface) s =
     (if - (2 ^ 62) \<le> sint val \<and> sint val < 2 ^ 62 then (Return (GoInt val) None, s)
      else (Return GoNil (Some AnError), s)) \<and>
   run (testPhase val) (GoNil :: 'a iface) s = (Panic TypeAssertion, s) \<and>
   run (testPhase val) (Dyn x) s = (Panic TypeAssertion, s)"
proof -
  have "run (testPhase val) (GoNil :: 'a iface) s = (Panic TypeAssertion, s)"
    and "run (testPhase val) (Dyn x) s = (Panic TypeAssertion, s)"
    by (simp_all add: run_def testPhase_def doubleHook_def)
  then show ?thesis
    using goDiv_double_iff [of val] by (simp only: run_testPhase split: if_splits)
qed

theorem run_round_trip_witness:
  "run (testPhase 1 :: (unit, string, unit) Phase) (GoInt 1) () = (Return (GoInt 1) None, ())"
  using run_round_trip [where val = 1 and s = "()" and x = "()"] by simp

text \<open>At \<open>val = 2^62\<close> the round trip fails.\<close>

theorem run_round_trip_overflow:
  "run (testPhase (2 ^ 62) :: (unit, string, unit) Phase) (GoInt (2 ^ 62)) () =
     (Return GoNil (Some AnError), ())"
proof -
  have "goDiv ((2 ^ 62) * 2) 2 = (2 ^ 62 :: 64 word) + 2 ^ 63"
    by (rule goDiv_double_high) simp
  then have "goDiv ((2 ^ 62) * 2) 2 \<noteq> (2 ^ 62 :: 64 word)"
    by simp
  then show ?thesis
    by (simp only: run_testPhase if_False)
qed

end
